theory Spec2Isabelle
  imports Complex_Main
begin

section \<open>Strings, paths and containers of the Python runtime\<close>

text \<open>
  The program is \<^verbatim>\<open>diffwhisperer/analyzer.py\<close>: one class, \<^verbatim>\<open>DiffAnalyzer\<close>, which
  collects the staged diffs of a git repository, condenses them into a digest, asks a
  generative model for a commit message and formats the answer.

  A Python \<^verbatim>\<open>str\<close> is modelled as a \<^typ>\<open>string\<close>, one \<^typ>\<open>char\<close> per code point (code
  points below 256). The library functions the source calls on strings, paths and
  counters are written out below as the Python runtime computes them.
\<close>

text \<open>\<^verbatim>\<open>str.isspace\<close> on one character: the whitespace code points below 256.\<close>

definition isspace :: "char \<Rightarrow> bool" where
  "isspace c = (c \<in> set [CHR 0x09, CHR 0x0A, CHR 0x0B, CHR 0x0C, CHR 0x0D,
                           CHR 0x1C, CHR 0x1D, CHR 0x1E, CHR 0x1F, CHR 0x20,
                           CHR 0x85, CHR 0xA0])"

text \<open>\<^verbatim>\<open>s.strip()\<close>: leading and trailing whitespace removed.\<close>

definition str_strip :: "string \<Rightarrow> string" where
  "str_strip s = rev (dropWhile isspace (rev (dropWhile isspace s)))"

text \<open>\<^verbatim>\<open>s.startswith(p)\<close>.\<close>

definition startswith :: "string \<Rightarrow> string \<Rightarrow> bool" where
  "startswith s p = (take (length p) s = p)"

text \<open>
  \<^verbatim>\<open>s.split(sep, maxsplit)\<close>, scanning from the left: \<open>acc\<close> holds the piece being read,
  reversed. A negative \<open>maxsplit\<close> (Python's default \<open>-1\<close>) never reaches \<open>0\<close>, so every
  occurrence splits. Python raises \<^verbatim>\<open>ValueError\<close> for an empty separator; the two call
  sites pass the literals \<^verbatim>\<open>'\n'\<close> and \<^verbatim>\<open>'\n\n'\<close>, and the model leaves the string whole
  there.
\<close>

fun split_scan :: "string \<Rightarrow> int \<Rightarrow> string \<Rightarrow> string \<Rightarrow> string list" where
  "split_scan sep m acc [] = [rev acc]"
| "split_scan sep m acc (c # cs) =
     (if m \<noteq> 0 \<and> sep \<noteq> [] \<and> startswith (c # cs) sep
      then rev acc # split_scan sep (m - 1) [] (drop (length sep) (c # cs))
      else split_scan sep m (c # acc) cs)"

definition str_split_max :: "string \<Rightarrow> int \<Rightarrow> string \<Rightarrow> string list" where
  "str_split_max sep maxsplit s = split_scan sep maxsplit [] s"

definition str_split :: "string \<Rightarrow> string \<Rightarrow> string list" where
  "str_split sep s = str_split_max sep (- 1) s"

text \<open>\<^verbatim>\<open>sep.join(xs)\<close>.\<close>

fun str_join :: "string \<Rightarrow> string list \<Rightarrow> string" where
  "str_join sep [] = []"
| "str_join sep [x] = x"
| "str_join sep (x # y # ys) = x @ sep @ str_join sep (y # ys)"

text \<open>The decimal rendering of a non-negative integer inside an f-string.\<close>

fun str_nat :: "nat \<Rightarrow> string" where
  "str_nat n =
     (if n < 10 then [''0123456789'' ! n]
      else str_nat (n div 10) @ [''0123456789'' ! (n mod 10)])"

text \<open>
  \<^verbatim>\<open>pathlib.Path\<close> on a POSIX system. \<open>splitroot\<close> separates the root (\<^verbatim>\<open>/\<close>, or \<^verbatim>\<open>//\<close>
  for exactly two leading slashes) from the rest; the rest is cut at \<^verbatim>\<open>/\<close> and empty
  and \<^verbatim>\<open>.\<close> components are dropped. \<open>parts\<close> is the root, when there is one, followed by
  the components; \<open>name\<close> is the last component, or the empty string.
\<close>

definition splitroot :: "string \<Rightarrow> string \<times> string" where
  "splitroot p =
     (if take 1 p \<noteq> ''/'' then ([], p)
      else if take 1 (drop 1 p) \<noteq> ''/'' \<or> take 1 (drop 2 p) = ''/'' then (''/'', drop 1 p)
      else (take 2 p, drop 2 p))"

definition path_tail :: "string \<Rightarrow> string list" where
  "path_tail p = filter (\<lambda>x. x \<noteq> [] \<and> x \<noteq> ''.'') (str_split ''/'' (snd (splitroot p)))"

definition path_parts :: "string \<Rightarrow> string list" where
  "path_parts p =
     (let root = fst (splitroot p)
      in (if root \<noteq> [] then [root] else []) @ path_tail p)"

definition path_name :: "string \<Rightarrow> string" where
  "path_name p = (case path_tail p of [] \<Rightarrow> [] | _ # _ \<Rightarrow> last (path_tail p))"

text \<open>
  A Python \<^verbatim>\<open>dict\<close> keeps its keys in insertion order, so a dictionary is an association
  list with distinct keys. \<^verbatim>\<open>d[k] = v\<close> replaces the value of a key that is present, in
  place, and appends a new key at the end.
\<close>

type_synonym ('k, 'v) dict = "('k \<times> 'v) list"

fun dict_setitem :: "('k, 'v) dict \<Rightarrow> 'k \<Rightarrow> 'v \<Rightarrow> ('k, 'v) dict" where
  "dict_setitem [] k v = [(k, v)]"
| "dict_setitem ((k', v') # d) k v =
     (if k' = k then (k', v) # d else (k', v') # dict_setitem d k v)"

text \<open>
  \<^verbatim>\<open>collections.Counter(xs)\<close> counts the elements of \<open>xs\<close> from left to right into a
  dictionary. \<^verbatim>\<open>most_common(1)\<close> is \<^verbatim>\<open>heapq.nlargest(1, items, key=count)\<close>, which for
  one element is \<^verbatim>\<open>max\<close>: the first item, in dictionary order, whose count no later item
  exceeds; the result is a list of at most one item.
\<close>

fun counter_add :: "'a \<Rightarrow> ('a, nat) dict \<Rightarrow> ('a, nat) dict" where
  "counter_add x [] = [(x, 1)]"
| "counter_add x ((k, n) # c) =
     (if k = x then (k, Suc n) # c else (k, n) # counter_add x c)"

definition Counter :: "'a list \<Rightarrow> ('a, nat) dict" where
  "Counter xs = foldl (\<lambda>c x. counter_add x c) [] xs"

fun max_by_count :: "'a \<times> nat \<Rightarrow> ('a \<times> nat) list \<Rightarrow> 'a \<times> nat" where
  "max_by_count best [] = best"
| "max_by_count best (kv # kvs) =
     max_by_count (if snd best < snd kv then kv else best) kvs"

definition most_common_1 :: "('a, nat) dict \<Rightarrow> ('a \<times> nat) list" where
  "most_common_1 c = (case c of [] \<Rightarrow> [] | kv # kvs \<Rightarrow> [max_by_count kv kvs])"

text \<open>A raised exception: its class and the text \<^verbatim>\<open>str(e)\<close> gives.\<close>

datatype py_exception = PyException (exc_class: string) (exc_str: string)

section \<open>The collaborators: the git repository and the generative backend\<close>

text \<open>
  The repository is what the three queries of the source answer at the time of the
  call. Each of them raises or answers.
  \<^item> \<open>index_diff_HEAD\<close> is \<^verbatim>\<open>repo.index.diff("HEAD")\<close>: the entries in which the index
    differs from the last commit, that is the staged changes. It raises when the
    repository has no commit.
  \<^item> \<open>index_diff_None\<close> is \<^verbatim>\<open>repo.index.diff(None)\<close>: the entries in which the working
    tree differs from the index, that is the changes that are not staged.
  \<^item> \<open>git_diff_cached p\<close> is \<^verbatim>\<open>repo.git.diff("--cached", p)\<close>: the staged diff text of
    the path, empty when nothing is staged for it. It raises when git rejects the path.

  A diff entry carries its \<^verbatim>\<open>a_path\<close>, which the binding types as optional.
\<close>

record diff_item =
  a_path :: "string option"

record repo =
  index_diff_HEAD :: "py_exception + diff_item list"
  index_diff_None :: "py_exception + diff_item list"
  git_diff_cached :: "string \<Rightarrow> py_exception + string"

text \<open>
  The backend: \<^verbatim>\<open>GenerationConfig\<close> carries the four generation parameters (the float
  literals are the decimals they denote; no arithmetic is done on them). A model is what
  its \<^verbatim>\<open>generate_content\<close> does with a prompt and a configuration: it raises or answers
  with a response, whose \<^verbatim>\<open>text\<close> property raises or gives the text. A call of
  \<^verbatim>\<open>generate_content\<close> is an effect on the backend: \<open>generate_content\<close> applies the model
  and records the call, with its prompt and its configuration, in the log of the calls
  the backend has received. \<^verbatim>\<open>genai\<close> is the module: \<^verbatim>\<open>GenerativeModel(name)\<close> raises or
  gives a model, \<^verbatim>\<open>list_models()\<close> raises or lists the models, both depending on the key
  set by \<^verbatim>\<open>genai.configure\<close> (\<open>None\<close>: not set by this program).
\<close>

record GenerationConfig =
  max_output_tokens :: int
  temperature :: real
  top_p :: real
  top_k :: int

datatype response = Response (response_text: "py_exception + string")

type_synonym model = "string \<Rightarrow> GenerationConfig \<Rightarrow> py_exception + response"

type_synonym call_log = "(string \<times> GenerationConfig) list"

definition generate_content ::
    "model \<Rightarrow> string \<Rightarrow> GenerationConfig \<Rightarrow> call_log \<Rightarrow> (py_exception + response) \<times> call_log" where
  "generate_content m prompt config calls = (m prompt config, calls @ [(prompt, config)])"

record model_info =
  name :: string

record genai =
  GenerativeModel :: "string option \<Rightarrow> string \<Rightarrow> py_exception + model"
  list_models :: "string option \<Rightarrow> py_exception + model_info list"

section \<open>DiffAnalyzer\<close>

record DiffAnalyzer =
  self_repo :: repo
  self_model :: model

text \<open>
  \<^verbatim>\<open>__init__\<close> (lines 15-32). \<open>git_Repo\<close> is \<^verbatim>\<open>git.Repo\<close>, which raises for a path that
  is no repository. A non-empty \<open>api_key\<close> is handed to \<^verbatim>\<open>genai.configure\<close>. When the
  construction of the model raises, the handler lists the models and raises
  \<^verbatim>\<open>ValueError\<close>; an exception of the listing itself propagates.
\<close>

definition invalid_model_message :: "string \<Rightarrow> string list \<Rightarrow> string" where
  "invalid_model_message model_name available_models =
     ''Invalid model name: '' @ model_name @ ''. Available models: ''
       @ str_join '', '' available_models"

definition configured_key :: "string option \<Rightarrow> string option" where
  "configured_key api_key =
     (case api_key of None \<Rightarrow> None | Some k \<Rightarrow> if k \<noteq> [] then Some k else None)"

definition init :: "(string \<Rightarrow> py_exception + repo) \<Rightarrow> genai \<Rightarrow> string \<Rightarrow> string option
    \<Rightarrow> string \<Rightarrow> py_exception + DiffAnalyzer" where
  "init git_Repo g repo_path api_key model_name =
     (case git_Repo repo_path of
        Inl e \<Rightarrow> Inl e
      | Inr r \<Rightarrow>
          (let key = configured_key api_key
           in case GenerativeModel g key model_name of
                Inr m \<Rightarrow> Inr \<lparr>self_repo = r, self_model = m\<rparr>
              | Inl e \<Rightarrow>
                  (case list_models g key of
                     Inl e' \<Rightarrow> Inl e'
                   | Inr ms \<Rightarrow>
                       Inl (PyException ''ValueError''
                              (invalid_model_message model_name (map name ms))))))"

text \<open>
  \<^verbatim>\<open>_determine_scope\<close> (lines 34-44). \<open>top_dir\<close> is the element of the list
  comprehension. \<^verbatim>\<open>most_common(1)[0][0]\<close> raises \<^verbatim>\<open>IndexError\<close> on an empty list.
\<close>

definition top_dir :: "string \<Rightarrow> string" where
  "top_dir f = (if length (path_parts f) > 1 then path_parts f ! 0 else ''misc'')"

definition determine_scope :: "string list \<Rightarrow> py_exception + string" where
  "determine_scope changed_files =
     (if changed_files = [] then Inr ''misc''
      else
        (let dirs = map top_dir changed_files;
             counts = Counter dirs
         in case most_common_1 counts of
              [] \<Rightarrow> Inl (PyException ''IndexError'' ''list index out of range'')
            | kv # _ \<Rightarrow> Inr (fst kv)))"

text \<open>
  \<^verbatim>\<open>_prepare_diff_summary\<close> (lines 46-69). \<open>summarize_file\<close> is the body of the loop for
  one item of the dictionary; \<open>summary_loop\<close> is the loop, appending to
  \<^verbatim>\<open>summary_parts\<close>.
\<close>

definition summarize_file :: "string \<Rightarrow> string \<Rightarrow> string" where
  "summarize_file file_path diff =
     (let filename = path_name file_path;
          lines = str_split ''\<newline>'' diff;
          added = length (filter (\<lambda>l. startswith l ''+'') lines);
          removed = length (filter (\<lambda>l. startswith l ''-'') lines);
          summary = ''File: '' @ filename;
          summary = (if added \<noteq> 0 \<or> removed \<noteq> 0
                     then summary @ '' ('' @ str_nat added @ '' added, ''
                            @ str_nat removed @ '' removed)''
                     else summary);
          change_lines = take 3 (filter (\<lambda>l. startswith l ''+'' \<or> startswith l ''-'') lines)
      in if change_lines \<noteq> []
         then summary @ ''\<newline>Changes:\<newline>'' @ str_join ''\<newline>'' change_lines
         else summary)"

fun summary_loop :: "(string, string) dict \<Rightarrow> string list \<Rightarrow> string list" where
  "summary_loop [] summary_parts = summary_parts"
| "summary_loop ((file_path, diff) # rest) summary_parts =
     summary_loop rest (summary_parts @ [summarize_file file_path diff])"

definition prepare_diff_summary :: "(string, string) dict \<Rightarrow> string" where
  "prepare_diff_summary staged_changes =
     str_join ''\<newline>\<newline>'' (summary_loop staged_changes [])"

text \<open>
  \<^verbatim>\<open>get_staged_changes\<close> (lines 71-85): the entries of the two listings, one after the
  other; an entry whose \<^verbatim>\<open>a_path\<close> is \<^verbatim>\<open>None\<close> or empty is skipped. An exception of one
  of the queries leaves the function.
\<close>

fun staged_loop ::
    "repo \<Rightarrow> diff_item list \<Rightarrow> (string, string) dict \<Rightarrow> py_exception + (string, string) dict" where
  "staged_loop r [] staged_files = Inr staged_files"
| "staged_loop r (item # rest) staged_files =
     (case a_path item of
        None \<Rightarrow> staged_loop r rest staged_files
      | Some p \<Rightarrow>
          if p \<noteq> [] then
            (case git_diff_cached r p of
               Inl e \<Rightarrow> Inl e
             | Inr d \<Rightarrow> staged_loop r rest (dict_setitem staged_files p d))
          else staged_loop r rest staged_files)"

definition get_staged_changes :: "DiffAnalyzer \<Rightarrow> py_exception + (string, string) dict" where
  "get_staged_changes self =
     (case index_diff_HEAD (self_repo self) of
        Inl e \<Rightarrow> Inl e
      | Inr diff \<Rightarrow>
          (case index_diff_None (self_repo self) of
             Inl e \<Rightarrow> Inl e
           | Inr unstaged \<Rightarrow> staged_loop (self_repo self) (diff @ unstaged) []))"

text \<open>The prompt (lines 108-135): the digest between the two fixed pieces of the template.\<close>

definition prompt_head :: string where
  "prompt_head =
     ''Analyze these changes and generate a detailed git commit message:\<newline>''"

definition prompt_tail :: string where
  "prompt_tail = concat
    [''\<newline>'',
     ''\<newline>'',
     ''Requirements for the commit message:\<newline>'',
     ''1. Start with a clear, concise title line (50-72 chars) that summarizes WHAT changed\<newline>'',
     ''2. Leave one blank line after the title\<newline>'',
     ''3. Follow with 2-4 paragraphs explaining:\<newline>'',
     ''   - WHY these changes were needed\<newline>'',
     ''   - HOW the changes address the need\<newline>'',
     ''   - Any important technical details or trade-offs\<newline>'',
     ''4. Use present tense and imperative mood\<newline>'',
     ''5. If relevant, include at end of body:\<newline>'',
     ''   - Breaking changes\<newline>'',
     ''   - Related issues\<newline>'',
     ''   - Migration notes\<newline>'',
     ''   - Credit to contributors\<newline>'',
     ''\<newline>'',
     ''Example format:\<newline>'',
     ''Title summarizing the change\<newline>'',
     ''\<newline>'',
     ''Explain why this change was needed and what problem it solves.\<newline>'',
     ''Provide context about the approach taken and any important\<newline>'',
     ''implementation details that future maintainers should know.\<newline>'',
     ''\<newline>'',
     ''Include any breaking changes, migration notes, or related\<newline>'',
     ''issues at the end as trailers.\<newline>'',
     ''\<newline>'',
     ''Generate a commit message following ALL the above rules.'']"

definition build_prompt :: "string \<Rightarrow> string" where
  "build_prompt changes_text = prompt_head @ changes_text @ prompt_tail"

text \<open>
  The formatting of the response text (lines 148-159). \<^verbatim>\<open>title, body = parts\<close> raises
  \<^verbatim>\<open>ValueError\<close> unless \<open>parts\<close> has two elements.
\<close>

definition format_message :: "string \<Rightarrow> py_exception + string" where
  "format_message text =
     (let message = str_strip text;
          parts = str_split_max ''\<newline>\<newline>'' 1 message
      in if length parts = 1 then Inr (parts ! 0)
         else
           (case parts of
              [title, body] \<Rightarrow> Inr (str_strip title @ ''\<newline>\<newline>'' @ str_strip body)
            | [] \<Rightarrow> Inl (PyException ''ValueError''
                          ''not enough values to unpack (expected 2, got 0)'')
            | _ \<Rightarrow> Inl (PyException ''ValueError''
                         ''too many values to unpack (expected 2)'')))"

text \<open>
  The body of the \<^verbatim>\<open>try\<close> (lines 138-159): the call, the text, the formatting. The log
  of the backend is threaded through.
\<close>

definition try_generate ::
    "model \<Rightarrow> string \<Rightarrow> GenerationConfig \<Rightarrow> call_log \<Rightarrow> (py_exception + string) \<times> call_log" where
  "try_generate m prompt config calls =
     (case generate_content m prompt config calls of
        (Inl e, calls') \<Rightarrow> (Inl e, calls')
      | (Inr response, calls') \<Rightarrow>
          (case response_text response of
             Inl e \<Rightarrow> (Inl e, calls')
           | Inr t \<Rightarrow> (format_message t, calls')))"

definition generation_config :: "int \<Rightarrow> GenerationConfig" where
  "generation_config max_tokens =
     \<lparr>max_output_tokens = max_tokens, temperature = 0.7, top_p = 0.8, top_k = 40\<rparr>"

text \<open>
  \<^verbatim>\<open>generate_commit_message\<close> (lines 87-162), run on a backend that has received no
  call. The result is what the function returns or raises, and the log of the backend
  afterwards. An exception of \<^verbatim>\<open>get_staged_changes\<close> is outside the \<^verbatim>\<open>try\<close> and leaves
  the function; an exception inside the \<^verbatim>\<open>try\<close> is turned into a string.
  \<open>generate_commit_message_default\<close> is the call without an argument.
\<close>

definition generate_commit_message ::
    "DiffAnalyzer \<Rightarrow> int \<Rightarrow> (py_exception + string) \<times> call_log" where
  "generate_commit_message self max_tokens =
     (case get_staged_changes self of
        Inl e \<Rightarrow> (Inl e, [])
      | Inr staged_changes \<Rightarrow>
          if staged_changes = [] then (Inr ''No staged changes found'', [])
          else
            (let changed_files = map fst staged_changes;
                 changes_text = prepare_diff_summary staged_changes;
                 prompt = build_prompt changes_text;
                 config = generation_config max_tokens
             in case try_generate (self_model self) prompt config [] of
                  (Inr formatted_message, calls) \<Rightarrow> (Inr formatted_message, calls)
                | (Inl e, calls) \<Rightarrow>
                    (Inr (''Error generating commit message: '' @ exc_str e), calls)))"

definition generate_commit_message_default ::
    "DiffAnalyzer \<Rightarrow> (py_exception + string) \<times> call_log" where
  "generate_commit_message_default self = generate_commit_message self 300"

section \<open>Concrete collaborators\<close>

text \<open>
  Small repositories and backends on which the functions are run.
  \<^item> Repositories: one with nothing staged and a clean working tree; one with a staged
    file (and an entry without a path); one with nothing staged and a tracked file
    modified in the working tree; one without a commit.
  \<^item> Models: one that raises and two that answer.
  \<^item> Backends: one that knows a single model name and lists it; one that accepts every
    name; one that rejects every name and lists nothing; one that rejects every name and
    whose listing raises.
  \<^item> \<^verbatim>\<open>git.Repo\<close>: one that opens the repository with the staged file, one that raises.
\<close>

definition empty_repo :: repo where
  "empty_repo =
     \<lparr>index_diff_HEAD = Inr [], index_diff_None = Inr [], git_diff_cached = (\<lambda>p. Inr [])\<rparr>"

definition one_file_repo :: repo where
  "one_file_repo =
     \<lparr>index_diff_HEAD = Inr [\<lparr>a_path = Some ''src/x.py''\<rparr>],
      index_diff_None = Inr [\<lparr>a_path = None\<rparr>],
      git_diff_cached = (\<lambda>p. Inr ''+a\<newline>+b\<newline>-c\<newline>+d\<newline>-e'')\<rparr>"

definition unstaged_repo :: repo where
  "unstaged_repo =
     \<lparr>index_diff_HEAD = Inr [],
      index_diff_None = Inr [\<lparr>a_path = Some ''src/x.py''\<rparr>],
      git_diff_cached = (\<lambda>p. Inr [])\<rparr>"

definition no_commit_repo :: repo where
  "no_commit_repo =
     \<lparr>index_diff_HEAD = Inl (PyException ''BadName'' ''Ref HEAD did not resolve to an object''),
      index_diff_None = Inr [],
      git_diff_cached = (\<lambda>p. Inr ''+a'')\<rparr>"

definition failing_model :: model where
  "failing_model = (\<lambda>prompt config. Inl (PyException ''ResourceExhausted'' ''429 quota exceeded''))"

definition answering_model :: model where
  "answering_model =
     (\<lambda>prompt config. Inr (Response (Inr '' Add parser\<newline>\<newline>\<newline>Explain why. \<newline>'')))"

definition title_model :: model where
  "title_model = (\<lambda>prompt config. Inr (Response (Inr '' Add parser\<newline>'')))"

definition one_model_genai :: genai where
  "one_model_genai =
     \<lparr>GenerativeModel = (\<lambda>key model_name.
        if model_name = ''gemini-2.0-flash'' then Inr answering_model
        else Inl (PyException ''NotFound'' ''404 model not found'')),
      list_models = (\<lambda>key. Inr [\<lparr>name = ''models/gemini-2.0-flash''\<rparr>])\<rparr>"

definition lenient_genai :: genai where
  "lenient_genai =
     \<lparr>GenerativeModel = (\<lambda>key model_name. Inr answering_model),
      list_models = (\<lambda>key. Inr [\<lparr>name = ''models/gemini-2.0-flash''\<rparr>])\<rparr>"

definition unlisted_genai :: genai where
  "unlisted_genai =
     \<lparr>GenerativeModel = (\<lambda>key model_name. Inl (PyException ''NotFound'' ''404 model not found'')),
      list_models = (\<lambda>key. Inr [])\<rparr>"

definition offline_genai :: genai where
  "offline_genai =
     \<lparr>GenerativeModel = (\<lambda>key model_name. Inl (PyException ''NotFound'' ''404 model not found'')),
      list_models = (\<lambda>key. Inl (PyException ''ServiceUnavailable'' ''503 failed to connect''))\<rparr>"

definition open_repo :: "string \<Rightarrow> py_exception + repo" where
  "open_repo = (\<lambda>repo_path. Inr one_file_repo)"

definition no_repo :: "string \<Rightarrow> py_exception + repo" where
  "no_repo = (\<lambda>repo_path. Inl (PyException ''InvalidGitRepositoryError'' repo_path))"

section \<open>Library facts\<close>

declare str_nat.simps [simp del]

lemma str_nat_2: "str_nat (Suc (Suc 0)) = ''2''"
  by (simp add: str_nat.simps numeral_nat)

lemma str_nat_3: "str_nat (Suc (Suc (Suc 0))) = ''3''"
  by (simp add: str_nat.simps numeral_nat)

lemma str_join_contains:
  "x \<in> set xs \<Longrightarrow> \<exists>u v. str_join sep xs = u @ x @ v"
proof (induction sep xs rule: str_join.induct)
  case (1 sep)
  then show ?case by simp
next
  case (2 sep y)
  then have "str_join sep [y] = [] @ x @ []" by simp
  then show ?case by blast
next
  case (3 sep y z zs)
  show ?case
  proof (cases "x = y")
    case True
    then have "str_join sep (y # z # zs) = [] @ x @ (sep @ str_join sep (z # zs))" by simp
    then show ?thesis by blast
  next
    case False
    with 3 obtain u v where "str_join sep (z # zs) = u @ x @ v" by auto
    then have "str_join sep (y # z # zs) = (y @ sep @ u) @ x @ v" by simp
    then show ?thesis by blast
  qed
qed

section \<open>The staged changes\<close>

lemma get_staged_changes_model:
  "get_staged_changes (self\<lparr>self_model := m\<rparr>) = get_staged_changes self"
  by (simp add: get_staged_changes_def split: sum.splits)

lemma one_file_staged:
  "get_staged_changes \<lparr>self_repo = one_file_repo, self_model = m\<rparr> =
     Inr [(''src/x.py'', ''+a\<newline>+b\<newline>-c\<newline>+d\<newline>-e'')]"
  by (simp add: get_staged_changes_def one_file_repo_def)

section \<open>The digest\<close>

lemma summary_loop_map:
  "summary_loop changes acc = acc @ map (\<lambda>(p, d). summarize_file p d) changes"
  by (induction changes acc rule: summary_loop.induct) auto

text \<open>
  C2. For an entry whose diff text splits into the lines \<open>+a\<close>, \<open>+b\<close>, \<open>-c\<close>, \<open>+d\<close>,
  \<open>-e\<close>, the block of the file is the header \<^verbatim>\<open>File: <filename> (3 added, 2 removed)\<close>
  followed by \<^verbatim>\<open>Changes:\<close> and the first three of the lines in their order, and the
  digest of a dictionary holding the entry is its blocks joined by one blank line. For
  every entry, a line starting with \<open>+\<close> counts as added and one starting with \<open>-\<close> as
  removed, and the counts and the changes are there exactly when one of the counts is
  not zero.
\<close>

theorem prepare_diff_summary_example:
  "(str_split ''\<newline>'' diff = [''+a'', ''+b'', ''-c'', ''+d'', ''-e''] \<longrightarrow>
      summarize_file file_path diff =
        ''File: '' @ path_name file_path @ '' (3 added, 2 removed)''
          @ ''\<newline>Changes:\<newline>'' @ ''+a\<newline>+b\<newline>-c''
      \<and> prepare_diff_summary (before @ [(file_path, diff)] @ after) =
          str_join ''\<newline>\<newline>''
            (map (\<lambda>(p, d). summarize_file p d) before
             @ [''File: '' @ path_name file_path @ '' (3 added, 2 removed)''
                  @ ''\<newline>Changes:\<newline>'' @ ''+a\<newline>+b\<newline>-c'']
             @ map (\<lambda>(p, d). summarize_file p d) after))
   \<and> summarize_file file_path diff =
       (let lines = str_split ''\<newline>'' diff;
            added = length (filter (\<lambda>l. startswith l ''+'') lines);
            removed = length (filter (\<lambda>l. startswith l ''-'') lines)
        in if added = 0 \<and> removed = 0 then ''File: '' @ path_name file_path
           else ''File: '' @ path_name file_path
                  @ '' ('' @ str_nat added @ '' added, '' @ str_nat removed @ '' removed)''
                  @ ''\<newline>Changes:\<newline>''
                  @ str_join ''\<newline>''
                      (take 3 (filter (\<lambda>l. startswith l ''+'' \<or> startswith l ''-'') lines)))"
proof (intro conjI impI)
  assume a: "str_split ''\<newline>'' diff = [''+a'', ''+b'', ''-c'', ''+d'', ''-e'']"
  show s: "summarize_file file_path diff =
           ''File: '' @ path_name file_path @ '' (3 added, 2 removed)''
             @ ''\<newline>Changes:\<newline>'' @ ''+a\<newline>+b\<newline>-c''"
    using a by (simp add: summarize_file_def startswith_def str_nat_3 str_nat_2)
  show "prepare_diff_summary (before @ [(file_path, diff)] @ after) =
          str_join ''\<newline>\<newline>''
            (map (\<lambda>(p, d). summarize_file p d) before
             @ [''File: '' @ path_name file_path @ '' (3 added, 2 removed)''
                  @ ''\<newline>Changes:\<newline>'' @ ''+a\<newline>+b\<newline>-c'']
             @ map (\<lambda>(p, d). summarize_file p d) after)"
    by (simp only: s prepare_diff_summary_def summary_loop_map map_append list.map
          case_prod_conv append_Nil simp_thms)
next
  let ?lines = "str_split ''\<newline>'' diff"
  have "filter (\<lambda>l. startswith l ''+'' \<or> startswith l ''-'') ?lines = [] \<longleftrightarrow>
        filter (\<lambda>l. startswith l ''+'') ?lines = [] \<and> filter (\<lambda>l. startswith l ''-'') ?lines = []"
    by (auto simp: filter_empty_conv)
  then show "summarize_file file_path diff =
       (let lines = str_split ''\<newline>'' diff;
            added = length (filter (\<lambda>l. startswith l ''+'') lines);
            removed = length (filter (\<lambda>l. startswith l ''-'') lines)
        in if added = 0 \<and> removed = 0 then ''File: '' @ path_name file_path
           else ''File: '' @ path_name file_path
                  @ '' ('' @ str_nat added @ '' added, '' @ str_nat removed @ '' removed)''
                  @ ''\<newline>Changes:\<newline>''
                  @ str_join ''\<newline>''
                      (take 3 (filter (\<lambda>l. startswith l ''+'' \<or> startswith l ''-'') lines)))"
    by (auto simp: summarize_file_def Let_def)
qed

theorem prepare_diff_summary_example_witness:
  "str_split ''\<newline>'' ''+a\<newline>+b\<newline>-c\<newline>+d\<newline>-e'' = [''+a'', ''+b'', ''-c'', ''+d'', ''-e'']
   \<and> prepare_diff_summary
        [(''README'', ''''), (''src/x.py'', ''+a\<newline>+b\<newline>-c\<newline>+d\<newline>-e'')] =
      ''File: README\<newline>\<newline>File: x.py (3 added, 2 removed)\<newline>Changes:\<newline>+a\<newline>+b\<newline>-c''"
proof -
  have h: "str_split ''\<newline>'' ''+a\<newline>+b\<newline>-c\<newline>+d\<newline>-e'' = [''+a'', ''+b'', ''-c'', ''+d'', ''-e'']"
    by code_simp
  have n: "path_name ''src/x.py'' = ''x.py''" by code_simp
  have r: "summarize_file ''README'' '''' = ''File: README''" by code_simp
  show ?thesis
    using h prepare_diff_summary_example
      [of "''+a\<newline>+b\<newline>-c\<newline>+d\<newline>-e''" "''src/x.py''" "[(''README'', '''')]" "[]"]
    by (simp add: n r)
qed

section \<open>Construction\<close>

text \<open>
  C7, as the claim states it, fails in four ways. A backend whose \<^verbatim>\<open>GenerativeModel\<close>
  accepts a name that its listing does not hold lets the construction succeed. When the
  listing raises, its exception leaves \<^verbatim>\<open>__init__\<close>, with no name in it. When the listing
  is empty, the message holds no name. When \<^verbatim>\<open>git.Repo\<close> raises, its exception leaves
  \<^verbatim>\<open>__init__\<close> before the model name is looked at.
\<close>

theorem init_unrecognized_model_counterexample:
  "''gemini-9'' \<notin> set [''models/gemini-2.0-flash'']
   \<and> init open_repo lenient_genai ''.'' None ''gemini-9''
       = Inr \<lparr>self_repo = one_file_repo, self_model = answering_model\<rparr>
   \<and> init open_repo offline_genai ''.'' None ''gemini-9''
       = Inl (PyException ''ServiceUnavailable'' ''503 failed to connect'')
   \<and> init open_repo unlisted_genai ''.'' None ''gemini-9''
       = Inl (PyException ''ValueError'' ''Invalid model name: gemini-9. Available models: '')
   \<and> init no_repo one_model_genai ''/tmp'' None ''gemini-9''
       = Inl (PyException ''InvalidGitRepositoryError'' ''/tmp'')"
  by (simp add: init_def open_repo_def no_repo_def lenient_genai_def offline_genai_def
        unlisted_genai_def one_model_genai_def invalid_model_message_def)

text \<open>
  C7, amended. When the repository opens and \<^verbatim>\<open>GenerativeModel\<close> raises on the model
  name: if the listing of the models answers, \<^verbatim>\<open>__init__\<close> raises \<^verbatim>\<open>ValueError\<close> with the
  message \<^verbatim>\<open>Invalid model name: <name>. Available models: \<close> followed by the listed names
  joined by a comma and a space, so every listed name occurs in it, and one does when the
  listing is not empty; if the listing raises, its exception leaves \<^verbatim>\<open>__init__\<close>. When the
  repository does not open, the exception of \<^verbatim>\<open>git.Repo\<close> leaves \<^verbatim>\<open>__init__\<close>.
\<close>

theorem init_invalid_model_name:
  "(git_Repo repo_path = Inr r
      \<and> GenerativeModel g (configured_key api_key) model_name = Inl e
      \<and> list_models g (configured_key api_key) = Inr ms
    \<longrightarrow> init git_Repo g repo_path api_key model_name =
           Inl (PyException ''ValueError''
                  (''Invalid model name: '' @ model_name @ ''. Available models: ''
                     @ str_join '', '' (map name ms)))
        \<and> (\<forall>m \<in> set ms. \<exists>u v.
              ''Invalid model name: '' @ model_name @ ''. Available models: ''
                 @ str_join '', '' (map name ms) = u @ name m @ v)
        \<and> (ms \<noteq> [] \<longrightarrow> (\<exists>m \<in> set ms. \<exists>u v.
              ''Invalid model name: '' @ model_name @ ''. Available models: ''
                 @ str_join '', '' (map name ms) = u @ name m @ v)))
   \<and> (git_Repo repo_path = Inr r
      \<and> GenerativeModel g (configured_key api_key) model_name = Inl e
      \<and> list_models g (configured_key api_key) = Inl e'
    \<longrightarrow> init git_Repo g repo_path api_key model_name = Inl e')
   \<and> (git_Repo repo_path = Inl e''
    \<longrightarrow> init git_Repo g repo_path api_key model_name = Inl e'')"
proof (intro conjI impI)
  assume a: "git_Repo repo_path = Inr r
      \<and> GenerativeModel g (configured_key api_key) model_name = Inl e
      \<and> list_models g (configured_key api_key) = Inr ms"
  let ?msg = "''Invalid model name: '' @ model_name @ ''. Available models: ''
                 @ str_join '', '' (map name ms)"
  show "init git_Repo g repo_path api_key model_name = Inl (PyException ''ValueError'' ?msg)"
    using a by (simp add: init_def invalid_model_message_def)
  show all: "\<forall>m \<in> set ms. \<exists>u v. ?msg = u @ name m @ v"
  proof
    fix m assume "m \<in> set ms"
    then have "name m \<in> set (map name ms)" by simp
    then obtain u v where "str_join '', '' (map name ms) = u @ name m @ v"
      using str_join_contains by blast
    then have "?msg = (''Invalid model name: '' @ model_name @ ''. Available models: '' @ u)
                        @ name m @ v"
      by simp
    then show "\<exists>u v. ?msg = u @ name m @ v" by blast
  qed
  assume "ms \<noteq> []"
  then obtain m where "m \<in> set ms" by (cases ms) auto
  with all show "\<exists>m \<in> set ms. \<exists>u v. ?msg = u @ name m @ v" by blast
next
  assume "git_Repo repo_path = Inr r
      \<and> GenerativeModel g (configured_key api_key) model_name = Inl e
      \<and> list_models g (configured_key api_key) = Inl e'"
  then show "init git_Repo g repo_path api_key model_name = Inl e'"
    by (simp add: init_def)
next
  assume "git_Repo repo_path = Inl e''"
  then show "init git_Repo g repo_path api_key model_name = Inl e''"
    by (simp add: init_def)
qed

theorem init_invalid_model_name_witness:
  "init open_repo one_model_genai ''.'' None ''gemini-9'' =
     Inl (PyException ''ValueError''
       ''Invalid model name: gemini-9. Available models: models/gemini-2.0-flash'')
   \<and> init open_repo offline_genai ''.'' None ''gemini-9'' =
       Inl (PyException ''ServiceUnavailable'' ''503 failed to connect'')
   \<and> init no_repo one_model_genai ''/tmp'' None ''gemini-9'' =
       Inl (PyException ''InvalidGitRepositoryError'' ''/tmp'')"
proof -
  have a: "init open_repo one_model_genai ''.'' None ''gemini-9'' =
     Inl (PyException ''ValueError''
       (''Invalid model name: '' @ ''gemini-9'' @ ''. Available models: ''
          @ str_join '', '' (map name [\<lparr>name = ''models/gemini-2.0-flash''\<rparr>])))"
    using init_invalid_model_name
      [of open_repo "''.''" one_file_repo one_model_genai None "''gemini-9''"
          "PyException ''NotFound'' ''404 model not found''"
          "[\<lparr>name = ''models/gemini-2.0-flash''\<rparr>]"]
    by (simp add: open_repo_def one_model_genai_def)
  have b: "init open_repo offline_genai ''.'' None ''gemini-9'' =
       Inl (PyException ''ServiceUnavailable'' ''503 failed to connect'')"
    using init_invalid_model_name
      [of open_repo "''.''" one_file_repo offline_genai None "''gemini-9''"
          "PyException ''NotFound'' ''404 model not found''" _
          "PyException ''ServiceUnavailable'' ''503 failed to connect''"]
    by (simp add: open_repo_def offline_genai_def)
  have c: "init no_repo one_model_genai ''/tmp'' None ''gemini-9'' =
       Inl (PyException ''InvalidGitRepositoryError'' ''/tmp'')"
    using init_invalid_model_name
      [of no_repo "''/tmp''" _ one_model_genai None "''gemini-9''" _ _ _
          "PyException ''InvalidGitRepositoryError'' ''/tmp''"]
    by (simp add: no_repo_def)
  from a b c show ?thesis by simp
qed

section \<open>Generation\<close>

lemma generate_commit_message_call:
  assumes "get_staged_changes self = Inr staged_changes" and "staged_changes \<noteq> []"
  shows "generate_commit_message self max_tokens =
     ((case self_model self (build_prompt (prepare_diff_summary staged_changes))
              (generation_config max_tokens) of
         Inl e \<Rightarrow> Inr (''Error generating commit message: '' @ exc_str e)
       | Inr response \<Rightarrow>
           (case response_text response of
              Inl e \<Rightarrow> Inr (''Error generating commit message: '' @ exc_str e)
            | Inr t \<Rightarrow>
                (case format_message t of
                   Inl e \<Rightarrow> Inr (''Error generating commit message: '' @ exc_str e)
                 | Inr formatted_message \<Rightarrow> Inr formatted_message))),
      [(build_prompt (prepare_diff_summary staged_changes), generation_config max_tokens)])"
  using assms
  by (simp add: generate_commit_message_def try_generate_def generate_content_def Let_def
        split: sum.splits)

text \<open>
  C1. When the dictionary of staged changes is empty, \<^verbatim>\<open>generate_commit_message\<close>
  returns the string \<^verbatim>\<open>No staged changes found\<close> and makes no call to
  \<^verbatim>\<open>generate_content\<close>.
\<close>

theorem generate_commit_message_no_changes:
  "get_staged_changes self = Inr [] \<Longrightarrow>
   generate_commit_message self max_tokens = (Inr ''No staged changes found'', [])"
  by (simp add: generate_commit_message_def)

theorem generate_commit_message_no_changes_witness:
  "get_staged_changes \<lparr>self_repo = empty_repo, self_model = failing_model\<rparr> = Inr [] \<and>
   generate_commit_message \<lparr>self_repo = empty_repo, self_model = failing_model\<rparr> 300 =
     (Inr ''No staged changes found'', [])"
  using generate_commit_message_no_changes
          [of "\<lparr>self_repo = empty_repo, self_model = failing_model\<rparr>" 300]
  by (simp add: get_staged_changes_def empty_repo_def)

text \<open>
  C6. When \<^verbatim>\<open>generate_content\<close> raises, \<^verbatim>\<open>generate_commit_message\<close> returns the string
  \<^verbatim>\<open>Error generating commit message: \<close> followed by the text of the exception: the
  exception does not leave the function.
\<close>

theorem generate_commit_message_backend_failure:
  assumes "get_staged_changes self = Inr staged_changes" and "staged_changes \<noteq> []"
    and "self_model self (build_prompt (prepare_diff_summary staged_changes))
           (generation_config max_tokens) = Inl e"
  shows "generate_commit_message self max_tokens =
           (Inr (''Error generating commit message: '' @ exc_str e),
            [(build_prompt (prepare_diff_summary staged_changes),
              generation_config max_tokens)])"
  using assms(3) by (simp add: generate_commit_message_call [OF assms(1,2)])

theorem generate_commit_message_backend_failure_witness:
  "get_staged_changes \<lparr>self_repo = one_file_repo, self_model = failing_model\<rparr>
     = Inr [(''src/x.py'', ''+a\<newline>+b\<newline>-c\<newline>+d\<newline>-e'')]
   \<and> fst (generate_commit_message \<lparr>self_repo = one_file_repo, self_model = failing_model\<rparr> 300) =
     Inr ''Error generating commit message: 429 quota exceeded''"
  using generate_commit_message_backend_failure
          [of "\<lparr>self_repo = one_file_repo, self_model = failing_model\<rparr>"
              "[(''src/x.py'', ''+a\<newline>+b\<newline>-c\<newline>+d\<newline>-e'')]" 300
              "PyException ''ResourceExhausted'' ''429 quota exceeded''"]
  by (simp add: one_file_staged) (simp add: failing_model_def)

text \<open>
  C8. When \<^verbatim>\<open>get_staged_changes\<close> returns a dictionary, the backend receives no call if
  the dictionary is empty and otherwise one call, with the prompt of the digest and with
  \<^verbatim>\<open>max_output_tokens\<close> the budget given, \<^verbatim>\<open>temperature\<close> 0.7, \<^verbatim>\<open>top_p\<close> 0.8 and \<^verbatim>\<open>top_k\<close>
  40, whatever the diffs are. What the function returns is made from the answer of the
  model to this prompt and this configuration and from nothing else of the model: the
  error string when the model, or the text of its response, raises there, the formatted
  text otherwise; two models that agree there give the same result. The budget is 300
  when none is given.
\<close>

theorem generate_commit_message_config:
  assumes "get_staged_changes self = Inr staged_changes"
  shows "snd (generate_commit_message self max_tokens) =
     (if staged_changes = [] then []
      else [(build_prompt (prepare_diff_summary staged_changes),
             \<lparr>max_output_tokens = max_tokens, temperature = 0.7, top_p = 0.8, top_k = 40\<rparr>)])
   \<and> (staged_changes \<noteq> [] \<longrightarrow>
        fst (generate_commit_message self max_tokens) =
          (case self_model self (build_prompt (prepare_diff_summary staged_changes))
                  \<lparr>max_output_tokens = max_tokens, temperature = 0.7, top_p = 0.8, top_k = 40\<rparr> of
             Inl e \<Rightarrow> Inr (''Error generating commit message: '' @ exc_str e)
           | Inr response \<Rightarrow>
               (case response_text response of
                  Inl e \<Rightarrow> Inr (''Error generating commit message: '' @ exc_str e)
                | Inr t \<Rightarrow>
                    (case format_message t of
                       Inl e \<Rightarrow> Inr (''Error generating commit message: '' @ exc_str e)
                     | Inr formatted_message \<Rightarrow> Inr formatted_message))))
   \<and> (\<forall>m. m (build_prompt (prepare_diff_summary staged_changes))
              \<lparr>max_output_tokens = max_tokens, temperature = 0.7, top_p = 0.8, top_k = 40\<rparr>
            = self_model self (build_prompt (prepare_diff_summary staged_changes))
              \<lparr>max_output_tokens = max_tokens, temperature = 0.7, top_p = 0.8, top_k = 40\<rparr>
          \<longrightarrow> generate_commit_message (self\<lparr>self_model := m\<rparr>) max_tokens
              = generate_commit_message self max_tokens)
   \<and> snd (generate_commit_message_default self) =
     (if staged_changes = [] then []
      else [(build_prompt (prepare_diff_summary staged_changes),
             \<lparr>max_output_tokens = 300, temperature = 0.7, top_p = 0.8, top_k = 40\<rparr>)])"
proof (cases "staged_changes = []")
  case True
  with assms have s: "get_staged_changes self = Inr []" by simp
  have "\<And>m. get_staged_changes (self\<lparr>self_model := m\<rparr>) = Inr []"
    by (simp add: get_staged_changes_model s)
  then have "\<And>m k. generate_commit_message (self\<lparr>self_model := m\<rparr>) k
               = (Inr ''No staged changes found'', [])"
    by (simp add: generate_commit_message_def)
  moreover have "\<And>k. generate_commit_message self k = (Inr ''No staged changes found'', [])"
    using s by (simp add: generate_commit_message_def)
  ultimately show ?thesis
    using True by (simp add: generate_commit_message_default_def)
next
  case False
  have g: "\<And>k. generate_commit_message self k =
     ((case self_model self (build_prompt (prepare_diff_summary staged_changes))
              (generation_config k) of
         Inl e \<Rightarrow> Inr (''Error generating commit message: '' @ exc_str e)
       | Inr response \<Rightarrow>
           (case response_text response of
              Inl e \<Rightarrow> Inr (''Error generating commit message: '' @ exc_str e)
            | Inr t \<Rightarrow>
                (case format_message t of
                   Inl e \<Rightarrow> Inr (''Error generating commit message: '' @ exc_str e)
                 | Inr formatted_message \<Rightarrow> Inr formatted_message))),
      [(build_prompt (prepare_diff_summary staged_changes), generation_config k)])"
    by (rule generate_commit_message_call [OF assms False])
  have g': "\<And>m k. generate_commit_message (self\<lparr>self_model := m\<rparr>) k =
     ((case m (build_prompt (prepare_diff_summary staged_changes)) (generation_config k) of
         Inl e \<Rightarrow> Inr (''Error generating commit message: '' @ exc_str e)
       | Inr response \<Rightarrow>
           (case response_text response of
              Inl e \<Rightarrow> Inr (''Error generating commit message: '' @ exc_str e)
            | Inr t \<Rightarrow>
                (case format_message t of
                   Inl e \<Rightarrow> Inr (''Error generating commit message: '' @ exc_str e)
                 | Inr formatted_message \<Rightarrow> Inr formatted_message))),
      [(build_prompt (prepare_diff_summary staged_changes), generation_config k)])"
  proof -
    fix m k
    have "get_staged_changes (self\<lparr>self_model := m\<rparr>) = Inr staged_changes"
      by (simp add: get_staged_changes_model assms)
    from generate_commit_message_call [OF this False, of k]
    show "generate_commit_message (self\<lparr>self_model := m\<rparr>) k =
     ((case m (build_prompt (prepare_diff_summary staged_changes)) (generation_config k) of
         Inl e \<Rightarrow> Inr (''Error generating commit message: '' @ exc_str e)
       | Inr response \<Rightarrow>
           (case response_text response of
              Inl e \<Rightarrow> Inr (''Error generating commit message: '' @ exc_str e)
            | Inr t \<Rightarrow>
                (case format_message t of
                   Inl e \<Rightarrow> Inr (''Error generating commit message: '' @ exc_str e)
                 | Inr formatted_message \<Rightarrow> Inr formatted_message))),
      [(build_prompt (prepare_diff_summary staged_changes), generation_config k)])"
      by simp
  qed
  have cfg: "\<And>k. generation_config k =
      \<lparr>max_output_tokens = k, temperature = 0.7, top_p = 0.8, top_k = 40\<rparr>"
    by (simp add: generation_config_def)
  show ?thesis
    unfolding generate_commit_message_default_def g g' cfg using False by simp
qed

theorem generate_commit_message_config_witness:
  "get_staged_changes \<lparr>self_repo = one_file_repo, self_model = answering_model\<rparr>
     = Inr [(''src/x.py'', ''+a\<newline>+b\<newline>-c\<newline>+d\<newline>-e'')]
   \<and> snd (generate_commit_message \<lparr>self_repo = one_file_repo, self_model = answering_model\<rparr> 300)
     = [(build_prompt ''File: x.py (3 added, 2 removed)\<newline>Changes:\<newline>+a\<newline>+b\<newline>-c'',
         \<lparr>max_output_tokens = 300, temperature = 0.7, top_p = 0.8, top_k = 40\<rparr>)]
   \<and> fst (generate_commit_message \<lparr>self_repo = one_file_repo, self_model = answering_model\<rparr> 300)
     = Inr ''Add parser\<newline>\<newline>Explain why.''"
proof -
  let ?self = "\<lparr>self_repo = one_file_repo, self_model = answering_model\<rparr>"
  have s: "get_staged_changes ?self = Inr [(''src/x.py'', ''+a\<newline>+b\<newline>-c\<newline>+d\<newline>-e'')]"
    by (rule one_file_staged)
  have d: "prepare_diff_summary [(''src/x.py'', ''+a\<newline>+b\<newline>-c\<newline>+d\<newline>-e'')]
             = ''File: x.py (3 added, 2 removed)\<newline>Changes:\<newline>+a\<newline>+b\<newline>-c''"
    by code_simp
  have f: "format_message '' Add parser\<newline>\<newline>\<newline>Explain why. \<newline>'' = Inr ''Add parser\<newline>\<newline>Explain why.''"
    by code_simp
  note t = generate_commit_message_config [OF s, of 300]
  have a: "snd (generate_commit_message ?self 300)
     = [(build_prompt ''File: x.py (3 added, 2 removed)\<newline>Changes:\<newline>+a\<newline>+b\<newline>-c'',
         \<lparr>max_output_tokens = 300, temperature = 0.7, top_p = 0.8, top_k = 40\<rparr>)]"
    using conjunct1 [OF t] by (simp add: d)
  have "self_model ?self
          (build_prompt (prepare_diff_summary [(''src/x.py'', ''+a\<newline>+b\<newline>-c\<newline>+d\<newline>-e'')]))
          \<lparr>max_output_tokens = 300, temperature = 0.7, top_p = 0.8, top_k = 40\<rparr>
        = Inr (Response (Inr '' Add parser\<newline>\<newline>\<newline>Explain why. \<newline>''))"
    by (simp add: answering_model_def)
  then have b: "fst (generate_commit_message ?self 300) = Inr ''Add parser\<newline>\<newline>Explain why.''"
    using conjunct1 [OF conjunct2 [OF t]] by (simp add: f)
  from s a b show ?thesis by (intro conjI)
qed

section \<open>What the collector returns\<close>

text \<open>
  C9. \<^verbatim>\<open>get_staged_changes\<close> reads \<^verbatim>\<open>index.diff(None)\<close>, the changes of the working tree
  that are not staged, after \<^verbatim>\<open>index.diff("HEAD")\<close>. In a repository where nothing is
  staged and one tracked file is modified in the working tree, the dictionary returned is
  not empty: it holds that file, mapped to its empty staged diff, and
  \<^verbatim>\<open>generate_commit_message\<close> calls the model instead of returning
  \<^verbatim>\<open>No staged changes found\<close>. In a repository without a commit, \<^verbatim>\<open>get_staged_changes\<close>
  returns no dictionary: it raises.
\<close>

theorem get_staged_changes_unstaged:
  "index_diff_HEAD unstaged_repo = Inr []
   \<and> get_staged_changes \<lparr>self_repo = unstaged_repo, self_model = answering_model\<rparr>
       = Inr [(''src/x.py'', [])]
   \<and> generate_commit_message \<lparr>self_repo = unstaged_repo, self_model = answering_model\<rparr> 300
       = (Inr ''Add parser\<newline>\<newline>Explain why.'',
          [(build_prompt ''File: x.py'', generation_config 300)])
   \<and> get_staged_changes \<lparr>self_repo = no_commit_repo, self_model = answering_model\<rparr>
       = Inl (PyException ''BadName'' ''Ref HEAD did not resolve to an object'')"
proof -
  let ?self = "\<lparr>self_repo = unstaged_repo, self_model = answering_model\<rparr>"
  have h: "index_diff_HEAD unstaged_repo = Inr []"
    by (simp add: unstaged_repo_def)
  have s: "get_staged_changes ?self = Inr [(''src/x.py'', [])]"
    by (simp add: get_staged_changes_def unstaged_repo_def)
  have d: "prepare_diff_summary [(''src/x.py'', [])] = ''File: x.py''"
    by code_simp
  have f: "format_message '' Add parser\<newline>\<newline>\<newline>Explain why. \<newline>'' = Inr ''Add parser\<newline>\<newline>Explain why.''"
    by code_simp
  have g: "generate_commit_message ?self 300
       = (Inr ''Add parser\<newline>\<newline>Explain why.'',
          [(build_prompt ''File: x.py'', generation_config 300)])"
    using generate_commit_message_call [OF s, of 300]
    by (simp add: d) (simp add: answering_model_def f)
  have n: "get_staged_changes \<lparr>self_repo = no_commit_repo, self_model = answering_model\<rparr>
       = Inl (PyException ''BadName'' ''Ref HEAD did not resolve to an object'')"
    by (simp add: get_staged_changes_def no_commit_repo_def)
  show ?thesis by (rule conjI [OF h conjI [OF s conjI [OF g n]]])
qed

section \<open>Splitting and stripping\<close>

lemma startswith_iff: "startswith s p \<longleftrightarrow> (\<exists>v. s = p @ v)"
proof
  assume "startswith s p"
  then have "s = p @ drop (length p) s"
    by (metis append_take_drop_id startswith_def)
  then show "\<exists>v. s = p @ v" ..
next
  assume "\<exists>v. s = p @ v"
  then show "startswith s p" by (auto simp: startswith_def)
qed

lemma split_scan_0: "split_scan sep 0 acc s = [rev acc @ s]"
  by (induction s arbitrary: acc) auto

lemma split_scan_1_none:
  "\<not> (\<exists>u v. s = u @ sep @ v) \<Longrightarrow> split_scan sep 1 acc s = [rev acc @ s]"
proof (induction s arbitrary: acc)
  case Nil
  then show ?case by simp
next
  case (Cons c cs)
  have no_head: "\<not> startswith (c # cs) sep"
  proof
    assume "startswith (c # cs) sep"
    then obtain v where "c # cs = [] @ sep @ v" by (auto simp: startswith_iff)
    with Cons.prems show False by blast
  qed
  have "\<not> (\<exists>u v. cs = u @ sep @ v)"
  proof
    assume "\<exists>u v. cs = u @ sep @ v"
    then obtain u v where "cs = u @ sep @ v" by blast
    then have "c # cs = (c # u) @ sep @ v" by simp
    with Cons.prems show False by blast
  qed
  then have "split_scan sep 1 (c # acc) cs = [rev (c # acc) @ cs]"
    by (rule Cons.IH)
  with no_head show ?case by simp
qed

lemma split_scan_1_first:
  assumes "sep \<noteq> []"
    and "\<forall>u' v'. u @ sep @ v = u' @ sep @ v' \<longrightarrow> length u \<le> length u'"
  shows "split_scan sep 1 acc (u @ sep @ v) = [rev acc @ u, v]"
  using assms(2)
proof (induction u arbitrary: acc)
  case Nil
  obtain c cs where s: "sep @ v = c # cs"
    using assms(1) by (cases sep) auto
  have "startswith (c # cs) sep"
    unfolding s [symmetric] by (simp add: startswith_def)
  then have "split_scan sep 1 acc (c # cs) =
               rev acc # split_scan sep 0 [] (drop (length sep) (c # cs))"
    using assms(1) by simp
  also have "drop (length sep) (c # cs) = v"
    unfolding s [symmetric] by simp
  finally show ?case
    by (simp add: s split_scan_0)
next
  case (Cons a u)
  have no_head: "\<not> startswith (a # u @ sep @ v) sep"
  proof
    assume "startswith (a # u @ sep @ v) sep"
    then obtain w where "(a # u) @ sep @ v = [] @ sep @ w"
      by (auto simp: startswith_iff)
    with Cons.prems have "length (a # u) \<le> length ([] :: string)" by blast
    then show False by simp
  qed
  have "\<forall>u' v'. u @ sep @ v = u' @ sep @ v' \<longrightarrow> length u \<le> length u'"
  proof (intro allI impI)
    fix u' v' assume "u @ sep @ v = u' @ sep @ v'"
    then have "(a # u) @ sep @ v = (a # u') @ sep @ v'" by simp
    with Cons.prems have "length (a # u) \<le> length (a # u')" by blast
    then show "length u \<le> length u'" by simp
  qed
  then have "split_scan sep 1 (a # acc) (u @ sep @ v) = [rev (a # acc) @ u, v]"
    by (rule Cons.IH)
  with no_head show ?case by simp
qed

lemma first_occurrence_exists:
  assumes "\<exists>u v. s = u @ sep @ v"
  shows "\<exists>u v. s = u @ sep @ v \<and> (\<forall>u' v'. s = u' @ sep @ v' \<longrightarrow> length u \<le> length u')"
proof -
  from assms obtain u0 v0 where "s = u0 @ sep @ v0" by blast
  then have "(\<lambda>p. s = fst p @ sep @ snd p) (u0, v0)" by simp
  then have "\<exists>p. s = fst p @ sep @ snd p \<and>
                 (\<forall>q. s = fst q @ sep @ snd q \<longrightarrow> length (fst p) \<le> length (fst q))"
    by (rule ex_has_least_nat)
  then obtain p where p: "s = fst p @ sep @ snd p"
    and least: "\<forall>q. s = fst q @ sep @ snd q \<longrightarrow> length (fst p) \<le> length (fst q)"
    by blast
  have "\<forall>u' v'. s = u' @ sep @ v' \<longrightarrow> length (fst p) \<le> length u'"
  proof (intro allI impI)
    fix u' v' assume "s = u' @ sep @ v'"
    then have "s = fst (u', v') @ sep @ snd (u', v')" by simp
    with least have "length (fst p) \<le> length (fst (u', v'))" by blast
    then show "length (fst p) \<le> length u'" by simp
  qed
  with p show ?thesis by blast
qed

lemma isspace_newline: "isspace CHR ''\<newline>''"
  by (simp add: isspace_def)

lemma rev_dropWhile_takeWhile:
  "xs = rev (dropWhile P (rev xs)) @ rev (takeWhile P (rev xs))"
  by (metis rev_append rev_rev_ident takeWhile_dropWhile_id)

lemma strip_decomp: "\<exists>a b. s = a @ str_strip s @ b"
proof -
  let ?a = "dropWhile isspace s"
  have "s = takeWhile isspace s @ ?a" by simp
  moreover have "?a = str_strip s @ rev (takeWhile isspace (rev ?a))"
    unfolding str_strip_def by (rule rev_dropWhile_takeWhile)
  ultimately have "s = takeWhile isspace s @ str_strip s @ rev (takeWhile isspace (rev ?a))"
    by simp
  then show ?thesis by blast
qed

lemma strip_keeps_start:
  assumes "s \<noteq> []" and "\<not> isspace (hd s)"
  shows "\<exists>w. s = str_strip s @ w"
proof -
  have d: "dropWhile isspace s = s"
    using assms by (cases s) auto
  have "s = rev (dropWhile isspace (rev s)) @ rev (takeWhile isspace (rev s))"
    by (rule rev_dropWhile_takeWhile)
  then have "s = str_strip s @ rev (takeWhile isspace (rev s))"
    by (simp add: str_strip_def d)
  then show ?thesis ..
qed

lemma strip_not_Nil:
  assumes "c \<in> set s" and "\<not> isspace c"
  shows "str_strip s \<noteq> []"
proof -
  have "dropWhile isspace s \<noteq> []"
    using assms by (auto simp: dropWhile_eq_Nil_conv)
  then have a: "dropWhile isspace s \<noteq> []" "\<not> isspace (hd (dropWhile isspace s))"
    by (simp_all add: hd_dropWhile)
  then have "hd (dropWhile isspace s) \<in> set (rev (dropWhile isspace s))" by simp
  with a(2) have "dropWhile isspace (rev (dropWhile isspace s)) \<noteq> []"
    by (auto simp: dropWhile_eq_Nil_conv)
  then show ?thesis by (simp add: str_strip_def)
qed

lemma strip_ends:
  assumes "str_strip s \<noteq> []"
  shows "\<not> isspace (hd (str_strip s)) \<and> \<not> isspace (last (str_strip s))"
proof -
  let ?a = "dropWhile isspace s"
  let ?b = "dropWhile isspace (rev ?a)"
  from assms have b: "?b \<noteq> []" by (simp add: str_strip_def)
  then have hb: "\<not> isspace (hd ?b)" by (simp add: hd_dropWhile)
  have l: "last (str_strip s) = hd ?b"
    using b by (simp add: str_strip_def last_rev)
  have "rev ?a = takeWhile isspace (rev ?a) @ ?b" by simp
  with b have "last (rev ?a) = last ?b" by (metis last_appendR)
  moreover have a: "?a \<noteq> []"
  proof
    assume e: "?a = []"
    have "?b = []" unfolding e by simp
    with b show False by simp
  qed
  ultimately have "last ?b = hd ?a" by (simp add: last_rev)
  moreover have "hd (str_strip s) = last ?b"
    using b by (simp add: str_strip_def hd_rev)
  moreover from a have "\<not> isspace (hd ?a)" by (simp add: hd_dropWhile)
  ultimately show ?thesis using hb l by simp
qed

lemma strip_id:
  assumes "s = [] \<or> (\<not> isspace (hd s) \<and> \<not> isspace (last s))"
  shows "str_strip s = s"
proof (cases "s = []")
  case True
  then show ?thesis by (simp add: str_strip_def)
next
  case False
  with assms have h: "\<not> isspace (hd s)" and l: "\<not> isspace (last s)" by auto
  from False h have d: "dropWhile isspace s = s" by (cases s) auto
  from False l have "\<not> isspace (hd (rev s))" by (simp add: hd_rev)
  with False have "dropWhile isspace (rev s) = rev s" by (cases "rev s") auto
  with d show ?thesis by (simp add: str_strip_def)
qed

lemma strip_strip: "str_strip (str_strip s) = str_strip s"
  using strip_ends [of s] by (intro strip_id) blast

lemma first_occurrence_fresh:
  assumes "c \<notin> set u"
  shows "\<forall>u' v'. u @ (c # sep') @ v = u' @ (c # sep') @ v' \<longrightarrow> length u \<le> length u'"
proof (intro allI impI, rule ccontr)
  fix u' v'
  assume eq: "u @ (c # sep') @ v = u' @ (c # sep') @ v'"
    and "\<not> length u \<le> length u'"
  then have short: "length u' < length u" by simp
  have "(u' @ (c # sep') @ v') ! length u' = c" by simp
  with eq have "(u @ (c # sep') @ v) ! length u' = c" by simp
  with short have "u ! length u' = c" by (simp add: nth_append)
  with short have "c \<in> set u" by (metis nth_mem)
  with assms show False by simp
qed
section \<open>The formatting of the response\<close>

lemma format_message_title_only:
  assumes "\<not> (\<exists>u v. str_strip t = u @ ''\<newline>\<newline>'' @ v)"
  shows "format_message t = Inr (str_strip t)"
proof -
  have "str_split_max ''\<newline>\<newline>'' 1 (str_strip t) = [str_strip t]"
    unfolding str_split_max_def using split_scan_1_none [OF assms, of "[]"] by simp
  then show ?thesis by (simp add: format_message_def)
qed

lemma format_message_title_body:
  assumes "str_strip t = u @ ''\<newline>\<newline>'' @ v"
    and "\<forall>u' v'. str_strip t = u' @ ''\<newline>\<newline>'' @ v' \<longrightarrow> length u \<le> length u'"
  shows "format_message t = Inr (str_strip u @ ''\<newline>\<newline>'' @ str_strip v)"
proof -
  have "split_scan ''\<newline>\<newline>'' 1 [] (u @ ''\<newline>\<newline>'' @ v) = [rev [] @ u, v]"
    by (rule split_scan_1_first) (use assms in simp_all)
  then have "str_split_max ''\<newline>\<newline>'' 1 (str_strip t) = [u, v]"
    by (simp add: str_split_max_def assms(1))
  then show ?thesis by (simp add: format_message_def)
qed

text \<open>
  What the two parts of a stripped text look like around its first blank line: neither is
  empty, the title starts and the body ends with a character that is no whitespace, and
  the blank line written between the stripped parts is again the first one.
\<close>

lemma stripped_parts:
  assumes m: "m = u @ ''\<newline>\<newline>'' @ v"
    and least: "\<forall>u' v'. m = u' @ ''\<newline>\<newline>'' @ v' \<longrightarrow> length u \<le> length u'"
    and ends: "\<not> isspace (hd m)" "\<not> isspace (last m)"
  shows "str_strip u \<noteq> []" and "str_strip v \<noteq> []"
    and "\<forall>u' v'. str_strip u @ ''\<newline>\<newline>'' @ str_strip v = u' @ ''\<newline>\<newline>'' @ v'
           \<longrightarrow> length (str_strip u) \<le> length u'"
proof -
  have u: "u \<noteq> []"
  proof
    assume "u = []"
    with m have "hd m = CHR ''\<newline>''" by simp
    with ends(1) show False by (simp add: isspace_newline)
  qed
  have v: "v \<noteq> []"
  proof
    assume "v = []"
    with m have "last m = CHR ''\<newline>''" by simp
    with ends(2) show False by (simp add: isspace_newline)
  qed
  from u m have hu: "hd u = hd m" by simp
  from v m have lv: "last v = last m" by simp
  have "hd u \<in> set u" using u by simp
  then show su: "str_strip u \<noteq> []"
    using ends(1) hu by (intro strip_not_Nil [of "hd u"]) simp_all
  have "last v \<in> set v" using v by simp
  then show "str_strip v \<noteq> []"
    using ends(2) lv by (intro strip_not_Nil [of "last v"]) simp_all
  from u ends(1) hu obtain w where w: "u = str_strip u @ w"
    using strip_keeps_start [of u] by auto
  have lt: "\<not> isspace (last (str_strip u))"
    using strip_ends [OF su] by simp
  show "\<forall>u' v'. str_strip u @ ''\<newline>\<newline>'' @ str_strip v = u' @ ''\<newline>\<newline>'' @ v'
           \<longrightarrow> length (str_strip u) \<le> length u'"
  proof (intro allI impI, rule ccontr)
    fix u' v'
    assume eq: "str_strip u @ ''\<newline>\<newline>'' @ str_strip v = u' @ ''\<newline>\<newline>'' @ v'"
      and "\<not> length (str_strip u) \<le> length u'"
    then have short: "length u' < length (str_strip u)" by simp
    from eq have "take (length u') (str_strip u @ ''\<newline>\<newline>'' @ str_strip v) = u'"
      by simp
    with short have tk: "take (length u') (str_strip u) = u'" by simp
    define us where "us = drop (length u') (str_strip u)"
    have split_u: "str_strip u = u' @ us"
      using tk us_def by (metis append_take_drop_id)
    from short have "us \<noteq> []" by (simp add: us_def)
    from eq split_u have rest: "us @ ''\<newline>\<newline>'' @ str_strip v = ''\<newline>\<newline>'' @ v'"
      by simp
    from \<open>us \<noteq> []\<close> obtain c us' where us: "us = c # us'" by (cases us) auto
    with rest have c: "c = CHR ''\<newline>''"
      and rest': "us' @ ''\<newline>\<newline>'' @ str_strip v = CHR ''\<newline>'' # v'"
      by simp_all
    show False
    proof (cases us')
      case Nil
      with split_u us c have "last (str_strip u) = CHR ''\<newline>''" by simp
      with lt show False by (simp add: isspace_newline)
    next
      case (Cons d us'')
      with rest' have "d = CHR ''\<newline>''" by simp
      with split_u us c Cons have "str_strip u = u' @ ''\<newline>\<newline>'' @ us''" by simp
      with w have "u = u' @ ''\<newline>\<newline>'' @ us'' @ w" by (metis append_assoc)
      with m have "m = u' @ ''\<newline>\<newline>'' @ (us'' @ w @ ''\<newline>\<newline>'' @ v)" by simp
      with least have "length u \<le> length u'" by blast
      moreover from w have "length (str_strip u) \<le> length u"
        by (metis le_add1 length_append)
      ultimately show False using short by simp
    qed
  qed
qed

lemma format_message_cases:
  "(format_message t = Inr (str_strip t)
      \<and> \<not> (\<exists>u v. str_strip t = u @ ''\<newline>\<newline>'' @ v))
   \<or> (\<exists>title body. format_message t = Inr (title @ ''\<newline>\<newline>'' @ body)
        \<and> title \<noteq> [] \<and> body \<noteq> []
        \<and> str_strip title = title \<and> str_strip body = body
        \<and> str_strip (title @ ''\<newline>\<newline>'' @ body) = title @ ''\<newline>\<newline>'' @ body
        \<and> (\<forall>u' v'. title @ ''\<newline>\<newline>'' @ body = u' @ ''\<newline>\<newline>'' @ v'
              \<longrightarrow> length title \<le> length u'))"
proof (cases "\<exists>u v. str_strip t = u @ ''\<newline>\<newline>'' @ v")
  case False
  then show ?thesis using format_message_title_only by blast
next
  case True
  then obtain u v where m: "str_strip t = u @ ''\<newline>\<newline>'' @ v"
    and least: "\<forall>u' v'. str_strip t = u' @ ''\<newline>\<newline>'' @ v' \<longrightarrow> length u \<le> length u'"
    using first_occurrence_exists [of "str_strip t" "''\<newline>\<newline>''"] by blast
  from m have ne: "str_strip t \<noteq> []" by simp
  then have ends: "\<not> isspace (hd (str_strip t))" "\<not> isspace (last (str_strip t))"
    using strip_ends by blast+
  let ?title = "str_strip u" and ?body = "str_strip v"
  have t: "?title \<noteq> []" and b: "?body \<noteq> []"
    and first: "\<forall>u' v'. ?title @ ''\<newline>\<newline>'' @ ?body = u' @ ''\<newline>\<newline>'' @ v'
           \<longrightarrow> length ?title \<le> length u'"
    using stripped_parts [OF m least ends] by blast+
  have f: "format_message t = Inr (?title @ ''\<newline>\<newline>'' @ ?body)"
    using m least by (rule format_message_title_body)
  have "\<not> isspace (hd ?title)" using strip_ends [OF t] by simp
  moreover have "\<not> isspace (last ?body)" using strip_ends [OF b] by simp
  ultimately have "str_strip (?title @ ''\<newline>\<newline>'' @ ?body) = ?title @ ''\<newline>\<newline>'' @ ?body"
    using t b by (intro strip_id) simp
  with f t b first strip_strip [of u] strip_strip [of v] show ?thesis by blast
qed

text \<open>
  C4. The formatting strips the response; when the stripped text has no two consecutive
  newlines it is returned whole, as the title; otherwise it is cut at the first
  occurrence, the two parts are stripped and joined again by a blank line. The example
  gives the title \<^verbatim>\<open>Title line\<close> and the body of the two paragraphs.
\<close>

theorem format_message_split:
  "(\<not> (\<exists>u v. str_strip t = u @ ''\<newline>\<newline>'' @ v) \<longrightarrow> format_message t = Inr (str_strip t))
   \<and> (str_strip t = u @ ''\<newline>\<newline>'' @ v
        \<and> (\<forall>u' v'. str_strip t = u' @ ''\<newline>\<newline>'' @ v' \<longrightarrow> length u \<le> length u')
      \<longrightarrow> format_message t = Inr (str_strip u @ ''\<newline>\<newline>'' @ str_strip v))
   \<and> format_message ''Title line\<newline>\<newline>Body para one.\<newline>\<newline>Body para two.'' =
       Inr (''Title line'' @ ''\<newline>\<newline>'' @ ''Body para one.\<newline>\<newline>Body para two.'')"
proof (intro conjI impI)
  assume "\<not> (\<exists>u v. str_strip t = u @ ''\<newline>\<newline>'' @ v)"
  then show "format_message t = Inr (str_strip t)" by (rule format_message_title_only)
next
  assume "str_strip t = u @ ''\<newline>\<newline>'' @ v
        \<and> (\<forall>u' v'. str_strip t = u' @ ''\<newline>\<newline>'' @ v' \<longrightarrow> length u \<le> length u')"
  then show "format_message t = Inr (str_strip u @ ''\<newline>\<newline>'' @ str_strip v)"
    using format_message_title_body by blast
next
  show "format_message ''Title line\<newline>\<newline>Body para one.\<newline>\<newline>Body para two.'' =
       Inr (''Title line'' @ ''\<newline>\<newline>'' @ ''Body para one.\<newline>\<newline>Body para two.'')"
    by code_simp
qed

theorem format_message_split_witness:
  "format_message '' Add parser \<newline>\<newline>\<newline>Explain why.\<newline>'' = Inr ''Add parser\<newline>\<newline>Explain why.''
   \<and> format_message '' Add parser\<newline>'' = Inr ''Add parser''"
proof -
  have s1: "str_strip '' Add parser \<newline>\<newline>\<newline>Explain why.\<newline>'' = ''Add parser '' @ ''\<newline>\<newline>'' @ ''\<newline>Explain why.''"
    by code_simp
  have "CHR ''\<newline>'' \<notin> set ''Add parser ''" by simp
  then have least: "\<forall>u' v'. str_strip '' Add parser \<newline>\<newline>\<newline>Explain why.\<newline>'' = u' @ ''\<newline>\<newline>'' @ v'
      \<longrightarrow> length ''Add parser '' \<le> length u'"
    unfolding s1 by (rule first_occurrence_fresh)
  have s2: "str_strip ''Add parser '' = ''Add parser''" by code_simp
  have s3: "str_strip ''\<newline>Explain why.'' = ''Explain why.''" by code_simp
  have s4: "str_strip '' Add parser\<newline>'' = ''Add parser''" by code_simp
  have n: "\<not> (\<exists>u v. str_strip '' Add parser\<newline>'' = u @ ''\<newline>\<newline>'' @ v)"
  proof
    assume "\<exists>u v. str_strip '' Add parser\<newline>'' = u @ ''\<newline>\<newline>'' @ v"
    then obtain u v where "''Add parser'' = u @ ''\<newline>\<newline>'' @ v"
      unfolding s4 by blast
    then have "CHR ''\<newline>'' \<in> set ''Add parser''" by (metis append_Cons in_set_conv_decomp)
    then show False by simp
  qed
  have a: "format_message '' Add parser \<newline>\<newline>\<newline>Explain why.\<newline>'' =
             Inr (str_strip ''Add parser '' @ ''\<newline>\<newline>'' @ str_strip ''\<newline>Explain why.'')"
    using format_message_split [of "'' Add parser \<newline>\<newline>\<newline>Explain why.\<newline>''" "''Add parser ''" "''\<newline>Explain why.''"]
      s1 least by blast
  have b: "format_message '' Add parser\<newline>'' = Inr (str_strip '' Add parser\<newline>'')"
    using format_message_split [of "'' Add parser\<newline>''" "[]" "[]"] n by blast
  show ?thesis
    unfolding a b s2 s3 s4 by simp
qed
lemma split_stripped_title_only:
  assumes "\<not> (\<exists>u v. t = u @ ''\<newline>\<newline>'' @ v)"
  shows "\<not> (\<exists>u v. str_strip t = u @ ''\<newline>\<newline>'' @ v)"
proof
  assume "\<exists>u v. str_strip t = u @ ''\<newline>\<newline>'' @ v"
  then obtain u v where "str_strip t = u @ ''\<newline>\<newline>'' @ v" by blast
  moreover obtain a b where "t = a @ str_strip t @ b"
    using strip_decomp by blast
  ultimately have "t = (a @ u) @ ''\<newline>\<newline>'' @ (v @ b)" by simp
  with assms show False by blast
qed


lemma generate_commit_message_answer:
  assumes "get_staged_changes self = Inr staged_changes" and "staged_changes \<noteq> []"
    and "self_model self (build_prompt (prepare_diff_summary staged_changes))
           (generation_config max_tokens) = Inr (Response (Inr t))"
    and "format_message t = Inr msg"
  shows "fst (generate_commit_message self max_tokens) = Inr msg"
  using assms(3,4) by (simp add: generate_commit_message_call [OF assms(1,2)])

text \<open>
  C10. The formatting always gives a message, and formatting that message again gives
  the same message.
\<close>

theorem format_message_idempotent:
  "\<exists>m. format_message t = Inr m \<and> format_message m = Inr m"
proof -
  consider
    (title) "format_message t = Inr (str_strip t)"
      "\<not> (\<exists>u v. str_strip t = u @ ''\<newline>\<newline>'' @ v)"
  | (both) title body where "format_message t = Inr (title @ ''\<newline>\<newline>'' @ body)"
      "str_strip title = title" "str_strip body = body"
      "str_strip (title @ ''\<newline>\<newline>'' @ body) = title @ ''\<newline>\<newline>'' @ body"
      "\<forall>u' v'. title @ ''\<newline>\<newline>'' @ body = u' @ ''\<newline>\<newline>'' @ v' \<longrightarrow> length title \<le> length u'"
    using format_message_cases [of t] by blast
  then show ?thesis
  proof cases
    case title
    from title(2) have "\<not> (\<exists>u v. str_strip (str_strip t) = u @ ''\<newline>\<newline>'' @ v)"
      by (simp add: strip_strip)
    then have "format_message (str_strip t) = Inr (str_strip (str_strip t))"
      by (rule format_message_title_only)
    with title(1) show ?thesis by (simp add: strip_strip)
  next
    case both
    let ?m = "title @ ''\<newline>\<newline>'' @ body"
    have "format_message ?m = Inr (str_strip title @ ''\<newline>\<newline>'' @ str_strip body)"
      by (rule format_message_title_body) (use both in simp_all)
    with both show ?thesis by simp
  qed
qed

theorem format_message_idempotent_witness:
  "format_message '' Add parser \<newline>\<newline>\<newline>Explain why.\<newline>'' = Inr ''Add parser\<newline>\<newline>Explain why.''
   \<and> format_message ''Add parser\<newline>\<newline>Explain why.'' = Inr ''Add parser\<newline>\<newline>Explain why.''"
proof -
  have a: "format_message '' Add parser \<newline>\<newline>\<newline>Explain why.\<newline>'' = Inr ''Add parser\<newline>\<newline>Explain why.''"
    by code_simp
  obtain m where "format_message '' Add parser \<newline>\<newline>\<newline>Explain why.\<newline>'' = Inr m"
    and "format_message m = Inr m"
    using format_message_idempotent [of "'' Add parser \<newline>\<newline>\<newline>Explain why.\<newline>''"] by blast
  with a show ?thesis by simp
qed


text \<open>
  C5. When \<^verbatim>\<open>generate_content\<close> answers with a text that has a character that is no
  whitespace, the message returned is a title, or a title, a blank line and a body;
  cutting it at its first blank line gives these parts back, and the title is not empty.
  When the text has no two consecutive newlines, the message is the stripped text, and it
  is the title alone.
\<close>

theorem generate_commit_message_title:
  assumes "get_staged_changes self = Inr staged_changes" and "staged_changes \<noteq> []"
    and "self_model self (build_prompt (prepare_diff_summary staged_changes))
           (generation_config max_tokens) = Inr (Response (Inr t))"
  shows "((\<exists>c \<in> set t. \<not> isspace c) \<longrightarrow>
            (\<exists>title rest.
               fst (generate_commit_message self max_tokens)
                 = Inr (str_join ''\<newline>\<newline>'' (title # rest))
               \<and> str_split_max ''\<newline>\<newline>'' 1 (str_join ''\<newline>\<newline>'' (title # rest)) = title # rest
               \<and> title \<noteq> [] \<and> length rest \<le> 1))
       \<and> (\<not> (\<exists>u v. t = u @ ''\<newline>\<newline>'' @ v) \<longrightarrow>
            fst (generate_commit_message self max_tokens) = Inr (str_strip t)
            \<and> str_split_max ''\<newline>\<newline>'' 1 (str_strip t) = [str_strip t])"
proof (intro conjI impI)
  assume "\<exists>c \<in> set t. \<not> isspace c"
  then have ne: "str_strip t \<noteq> []" using strip_not_Nil by blast
  consider
    (title) "format_message t = Inr (str_strip t)"
      "\<not> (\<exists>u v. str_strip t = u @ ''\<newline>\<newline>'' @ v)"
  | (both) title body where "format_message t = Inr (title @ ''\<newline>\<newline>'' @ body)"
      "title \<noteq> []"
      "\<forall>u' v'. title @ ''\<newline>\<newline>'' @ body = u' @ ''\<newline>\<newline>'' @ v' \<longrightarrow> length title \<le> length u'"
    using format_message_cases [of t] by blast
  then show "\<exists>title rest.
               fst (generate_commit_message self max_tokens)
                 = Inr (str_join ''\<newline>\<newline>'' (title # rest))
               \<and> str_split_max ''\<newline>\<newline>'' 1 (str_join ''\<newline>\<newline>'' (title # rest)) = title # rest
               \<and> title \<noteq> [] \<and> length rest \<le> 1"
  proof cases
    case title
    have "fst (generate_commit_message self max_tokens) = Inr (str_join ''\<newline>\<newline>'' [str_strip t])"
      using generate_commit_message_answer [OF assms title(1)] by simp
    moreover have "str_split_max ''\<newline>\<newline>'' 1 (str_join ''\<newline>\<newline>'' [str_strip t]) = [str_strip t]"
      unfolding str_split_max_def using split_scan_1_none [OF title(2), of "[]"] by simp
    ultimately show ?thesis using ne by (intro exI [of _ "str_strip t"] exI [of _ "[]"]) simp
  next
    case both
    have "fst (generate_commit_message self max_tokens) = Inr (str_join ''\<newline>\<newline>'' [title, body])"
      using generate_commit_message_answer [OF assms both(1)] by simp
    moreover have "split_scan ''\<newline>\<newline>'' 1 [] (title @ ''\<newline>\<newline>'' @ body) = [rev [] @ title, body]"
      by (rule split_scan_1_first) (use both(3) in simp_all)
    then have "str_split_max ''\<newline>\<newline>'' 1 (str_join ''\<newline>\<newline>'' [title, body]) = [title, body]"
      by (simp add: str_split_max_def)
    ultimately show ?thesis
      using both(2) by (intro exI [of _ title] exI [of _ "[body]"]) simp
  qed
next
  assume "\<not> (\<exists>u v. t = u @ ''\<newline>\<newline>'' @ v)"
  then have n: "\<not> (\<exists>u v. str_strip t = u @ ''\<newline>\<newline>'' @ v)"
    by (rule split_stripped_title_only)
  then have "format_message t = Inr (str_strip t)" by (rule format_message_title_only)
  then show "fst (generate_commit_message self max_tokens) = Inr (str_strip t)"
    by (rule generate_commit_message_answer [OF assms])
  show "str_split_max ''\<newline>\<newline>'' 1 (str_strip t) = [str_strip t]"
    unfolding str_split_max_def using split_scan_1_none [OF n, of "[]"] by simp
qed

theorem generate_commit_message_title_witness:
  "get_staged_changes \<lparr>self_repo = one_file_repo, self_model = title_model\<rparr>
     = Inr [(''src/x.py'', ''+a\<newline>+b\<newline>-c\<newline>+d\<newline>-e'')]
   \<and> CHR ''A'' \<in> set '' Add parser\<newline>'' \<and> \<not> isspace CHR ''A''
   \<and> \<not> (\<exists>u v. '' Add parser\<newline>'' = u @ ''\<newline>\<newline>'' @ v)
   \<and> fst (generate_commit_message \<lparr>self_repo = one_file_repo, self_model = title_model\<rparr> 300)
       = Inr ''Add parser''
   \<and> str_split_max ''\<newline>\<newline>'' 1 ''Add parser'' = [''Add parser'']"
proof -
  let ?self = "\<lparr>self_repo = one_file_repo, self_model = title_model\<rparr>"
  have staged: "get_staged_changes ?self = Inr [(''src/x.py'', ''+a\<newline>+b\<newline>-c\<newline>+d\<newline>-e'')]"
    by (rule one_file_staged)
  have ne: "[(''src/x.py'', ''+a\<newline>+b\<newline>-c\<newline>+d\<newline>-e'')] \<noteq> []" by simp
  have answer: "self_model ?self
           (build_prompt (prepare_diff_summary [(''src/x.py'', ''+a\<newline>+b\<newline>-c\<newline>+d\<newline>-e'')]))
           (generation_config 300) = Inr (Response (Inr '' Add parser\<newline>''))"
    by (simp add: title_model_def)
  have n: "\<not> (\<exists>u v. '' Add parser\<newline>'' = u @ ''\<newline>\<newline>'' @ v)"
  proof
    assume "\<exists>u v. '' Add parser\<newline>'' = u @ ''\<newline>\<newline>'' @ v"
    then obtain u v where e: "'' Add parser\<newline>'' = u @ ''\<newline>\<newline>'' @ v" by blast
    have "CHR ''\<newline>'' \<notin> set '' Add parser''" by simp
    then have "\<forall>u' v'. '' Add parser'' @ (CHR ''\<newline>'' # []) @ [] = u' @ (CHR ''\<newline>'' # []) @ v'
        \<longrightarrow> length '' Add parser'' \<le> length u'"
      by (rule first_occurrence_fresh)
    moreover from e have "'' Add parser'' @ (CHR ''\<newline>'' # []) @ [] = u @ (CHR ''\<newline>'' # []) @ (CHR ''\<newline>'' # v)"
      by simp
    ultimately have "length '' Add parser'' \<le> length u" by blast
    moreover from e have "length '' Add parser\<newline>'' = length (u @ ''\<newline>\<newline>'' @ v)" by simp
    ultimately show False by simp
  qed
  have s: "str_strip '' Add parser\<newline>'' = ''Add parser''" by code_simp
  have sp: "\<not> isspace CHR ''A''" by (simp add: isspace_def)
  show ?thesis
    using generate_commit_message_title [OF staged ne answer] staged n sp
    by (simp add: s)
qed

section \<open>The scope\<close>

lemma keys_counter_add:
  "map fst (counter_add x c) = (if x \<in> fst ` set c then map fst c else map fst c @ [x])"
  by (induction x c rule: counter_add.induct) (auto simp: image_iff)

lemma map_of_counter_add:
  "map_of (counter_add x c) =
     (map_of c)(x \<mapsto> (case map_of c x of None \<Rightarrow> 1 | Some n \<Rightarrow> Suc n))"
  by (induction x c rule: counter_add.induct) (auto simp: fun_eq_iff)

lemma Counter_snoc: "Counter (xs @ [x]) = counter_add x (Counter xs)"
  by (simp add: Counter_def)

lemma keys_Counter: "map fst (Counter xs) = rev (remdups (rev xs))"
proof (induction xs rule: rev_induct)
  case Nil
  then show ?case by (simp add: Counter_def)
next
  case (snoc x xs)
  have "fst ` set (Counter xs) = set xs"
    using snoc by (metis set_map set_remdups set_rev)
  then show ?case
    by (simp add: Counter_snoc keys_counter_add snoc)
qed

lemma set_keys_Counter: "fst ` set (Counter xs) = set xs"
  using keys_Counter [of xs] by (metis set_map set_remdups set_rev)

lemma distinct_keys_Counter: "distinct (map fst (Counter xs))"
  by (simp add: keys_Counter)

lemma map_of_Counter:
  "map_of (Counter xs) k = (if k \<in> set xs then Some (count_list xs k) else None)"
proof (induction xs arbitrary: k rule: rev_induct)
  case Nil
  then show ?case by (simp add: Counter_def)
next
  case (snoc x xs)
  show ?case
    by (simp add: Counter_snoc map_of_counter_add snoc count_list_0_iff)
qed

lemma count_of_item:
  assumes "(k, n) \<in> set (Counter xs)"
  shows "n = count_list xs k"
proof -
  have "map_of (Counter xs) k = Some n"
    using assms distinct_keys_Counter by (rule_tac map_of_is_SomeI)
  then show ?thesis
    by (simp add: map_of_Counter split: if_splits)
qed

lemma item_of_key:
  assumes "k \<in> set xs"
  shows "(k, count_list xs k) \<in> set (Counter xs)"
proof -
  have "map_of (Counter xs) k = Some (count_list xs k)"
    using assms by (simp add: map_of_Counter)
  then show ?thesis by (rule map_of_SomeD)
qed

lemma first_seen_order:
  "k \<in> set xs \<Longrightarrow>
   set (takeWhile (\<lambda>y. y \<noteq> k) (rev (remdups (rev xs)))) = set (takeWhile (\<lambda>y. y \<noteq> k) xs)"
proof (induction xs rule: rev_induct)
  case Nil
  then show ?case by simp
next
  case (snoc x xs)
  let ?F = "rev (remdups (rev xs))"
  have setF: "set ?F = set xs" by simp
  show ?case
  proof (cases "k \<in> set xs")
    case True
    then have r: "takeWhile (\<lambda>y. y \<noteq> k) (xs @ [x]) = takeWhile (\<lambda>y. y \<noteq> k) xs"
      by (simp add: takeWhile_append1)
    from True have kF: "k \<in> set ?F" by simp
    have l: "takeWhile (\<lambda>y. y \<noteq> k) (rev (remdups (rev (xs @ [x])))) = takeWhile (\<lambda>y. y \<noteq> k) ?F"
    proof (cases "x \<in> set xs")
      case True
      then show ?thesis by simp
    next
      case False
      then have "rev (remdups (rev (xs @ [x]))) = ?F @ [x]" by simp
      with kF show ?thesis by (simp add: takeWhile_append1 del: set_rev set_remdups)
    qed
    show ?thesis unfolding l r using snoc.IH [OF True] .
  next
    case False
    with snoc.prems have kx: "k = x" by simp
    with False have nx: "x \<notin> set xs" by simp
    then have e: "rev (remdups (rev (xs @ [x]))) = ?F @ [x]" by simp
    have "takeWhile (\<lambda>y. y \<noteq> x) (?F @ [x]) = ?F"
      using nx by (subst takeWhile_append2) auto
    moreover have "takeWhile (\<lambda>y. y \<noteq> x) (xs @ [x]) = xs"
      using nx by (subst takeWhile_append2) auto
    ultimately show ?thesis unfolding e kx by simp
  qed
qed

lemma max_by_count_first:
  "\<exists>pre post. best # kvs = pre @ max_by_count best kvs # post
     \<and> (\<forall>kv \<in> set pre. snd kv < snd (max_by_count best kvs))
     \<and> (\<forall>kv \<in> set post. snd kv \<le> snd (max_by_count best kvs))"
proof (induction kvs arbitrary: best)
  case Nil
  have "[best] = [] @ max_by_count best [] # []" by simp
  then show ?case by fastforce
next
  case (Cons kv kvs)
  show ?case
  proof (cases "snd best < snd kv")
    case True
    define r where "r = max_by_count kv kvs"
    from Cons [of kv] obtain pre post where d: "kv # kvs = pre @ r # post"
      and lt: "\<forall>x \<in> set pre. snd x < snd r" and le: "\<forall>x \<in> set post. snd x \<le> snd r"
      unfolding r_def by blast
    have "snd kv \<le> snd r"
    proof (cases pre)
      case Nil
      with d have "kv = r" by simp
      then show ?thesis by simp
    next
      case (Cons p ps)
      with d have "kv \<in> set pre" by simp
      with lt show ?thesis by fastforce
    qed
    with True have b: "snd best < snd r" by simp
    have r: "max_by_count best (kv # kvs) = r" using True by (simp add: r_def)
    have "best # kv # kvs = (best # pre) @ r # post" using d by simp
    moreover have "\<forall>x \<in> set (best # pre). snd x < snd r" using b lt by simp
    ultimately show ?thesis unfolding r using le by blast
  next
    case False
    define r where "r = max_by_count best kvs"
    from Cons [of best] obtain pre post where d: "best # kvs = pre @ r # post"
      and lt: "\<forall>x \<in> set pre. snd x < snd r" and le: "\<forall>x \<in> set post. snd x \<le> snd r"
      unfolding r_def by blast
    have r: "max_by_count best (kv # kvs) = r" using False by (simp add: r_def)
    show ?thesis
    proof (cases pre)
      case Nil
      with d have rb: "r = best" and pk: "post = kvs" by simp_all
      then have "best # kv # kvs = [] @ r # (kv # kvs)" by simp
      moreover have "\<forall>x \<in> set (kv # kvs). snd x \<le> snd r"
        using False le rb pk by auto
      ultimately show ?thesis unfolding r by fastforce
    next
      case (Cons p ps)
      with d have p: "p = best" and k: "kvs = ps @ r # post" by simp_all
      from lt Cons p have "snd best < snd r" by simp
      with False have "snd kv < snd r" by simp
      with lt Cons p have "\<forall>x \<in> set (best # kv # ps). snd x < snd r" by simp
      moreover have "best # kv # kvs = (best # kv # ps) @ r # post"
        by (subst k) simp
      ultimately show ?thesis unfolding r using le by blast
    qed
  qed
qed

lemma most_common_1_Counter:
  assumes "xs \<noteq> []"
  shows "\<exists>k. most_common_1 (Counter xs) = [(k, count_list xs k)]
     \<and> k \<in> set xs
     \<and> (\<forall>d. count_list xs d \<le> count_list xs k)
     \<and> (\<forall>d \<in> set (takeWhile (\<lambda>y. y \<noteq> k) xs). count_list xs d < count_list xs k)"
proof -
  let ?c = "Counter xs"
  from assms have "fst ` set ?c \<noteq> {}" by (simp add: set_keys_Counter)
  then obtain kv kvs where c: "?c = kv # kvs" by (cases ?c) auto
  define r where "r = max_by_count kv kvs"
  obtain pre post where d: "?c = pre @ r # post"
    and lt: "\<forall>x \<in> set pre. snd x < snd r" and le: "\<forall>x \<in> set post. snd x \<le> snd r"
    using max_by_count_first [of kv kvs] unfolding r_def c by blast
  obtain k n where r: "r = (k, n)" by (cases r)
  have mem: "(k, n) \<in> set ?c" using d r by simp
  then have n: "n = count_list xs k" by (rule count_of_item)
  have k: "k \<in> set xs" using mem set_keys_Counter [of xs] by force
  have mc: "most_common_1 ?c = [(k, count_list xs k)]"
    using c r r_def n by (simp add: most_common_1_def)
  have maxi: "\<forall>d. count_list xs d \<le> count_list xs k"
  proof
    fix d
    show "count_list xs d \<le> count_list xs k"
    proof (cases "d \<in> set xs")
      case False
      then show ?thesis by (simp add: count_list_0_iff)
    next
      case True
      then have "(d, count_list xs d) \<in> set ?c" by (rule item_of_key)
      then have "(d, count_list xs d) \<in> set pre \<or> (d, count_list xs d) = r
          \<or> (d, count_list xs d) \<in> set post"
        using d by auto
      then show ?thesis using lt le r n by fastforce
    qed
  qed
  have keys: "map fst ?c = map fst pre @ k # map fst post" using d r by simp
  have "distinct (map fst ?c)" by (rule distinct_keys_Counter)
  with keys have "k \<notin> set (map fst pre)" by simp
  then have "takeWhile (\<lambda>y. y \<noteq> k) (map fst ?c) = map fst pre"
    unfolding keys by (subst takeWhile_append2) auto
  then have "set (takeWhile (\<lambda>y. y \<noteq> k) xs) = fst ` set pre"
    using first_seen_order [OF k] by (simp add: keys_Counter)
  moreover have "\<forall>d \<in> fst ` set pre. count_list xs d < count_list xs k"
  proof
    fix d assume "d \<in> fst ` set pre"
    then obtain m where m: "(d, m) \<in> set pre" by auto
    then have "(d, m) \<in> set ?c" using d by simp
    then have "m = count_list xs d" by (rule count_of_item)
    with m lt r n show "count_list xs d < count_list xs k" by fastforce
  qed
  ultimately show ?thesis using mc k maxi by blast
qed

text \<open>
  C3. \<^verbatim>\<open>_determine_scope\<close> never raises. For the empty list it returns \<^verbatim>\<open>misc\<close>.
  Otherwise every path contributes its first part when it has more than one part and
  \<^verbatim>\<open>misc\<close> when it has not, and the result is one of these labels, no label occurs more
  often, and every label met before its first occurrence occurs less often. The three
  examples of the specification evaluate to \<^verbatim>\<open>src\<close>, \<^verbatim>\<open>misc\<close> and \<^verbatim>\<open>misc\<close>.
\<close>

theorem determine_scope_most_common:
  "(changed_files \<noteq> [] \<longrightarrow>
      (\<exists>r. determine_scope changed_files = Inr r
         \<and> r \<in> set (map top_dir changed_files)
         \<and> (\<forall>d. count_list (map top_dir changed_files) d
                  \<le> count_list (map top_dir changed_files) r)
         \<and> (\<forall>d \<in> set (takeWhile (\<lambda>y. y \<noteq> r) (map top_dir changed_files)).
               count_list (map top_dir changed_files) d
                 < count_list (map top_dir changed_files) r)))
   \<and> top_dir f = (if 1 < length (path_parts f) then hd (path_parts f) else ''misc'')
   \<and> determine_scope [''src/a.py'', ''src/b.py'', ''docs/c.md''] = Inr ''src''
   \<and> determine_scope [''readme.md''] = Inr ''misc''
   \<and> determine_scope [] = Inr ''misc''"
proof (intro conjI impI)
  assume ne: "changed_files \<noteq> []"
  let ?dirs = "map top_dir changed_files"
  from ne have "?dirs \<noteq> []" by simp
  then obtain k where mc: "most_common_1 (Counter ?dirs) = [(k, count_list ?dirs k)]"
    and k: "k \<in> set ?dirs"
    and maxi: "\<forall>d. count_list ?dirs d \<le> count_list ?dirs k"
    and first: "\<forall>d \<in> set (takeWhile (\<lambda>y. y \<noteq> k) ?dirs). count_list ?dirs d < count_list ?dirs k"
    using most_common_1_Counter [of ?dirs] by blast
  have "determine_scope changed_files = Inr k"
    using ne mc by (simp add: determine_scope_def)
  with k maxi first show "\<exists>r. determine_scope changed_files = Inr r
         \<and> r \<in> set ?dirs
         \<and> (\<forall>d. count_list ?dirs d \<le> count_list ?dirs r)
         \<and> (\<forall>d \<in> set (takeWhile (\<lambda>y. y \<noteq> r) ?dirs).
               count_list ?dirs d < count_list ?dirs r)"
    by blast
next
  show "top_dir f = (if 1 < length (path_parts f) then hd (path_parts f) else ''misc'')"
    by (cases "path_parts f") (simp_all add: top_dir_def)
next
  show "determine_scope [''src/a.py'', ''src/b.py'', ''docs/c.md''] = Inr ''src''"
    by code_simp
next
  show "determine_scope [''readme.md''] = Inr ''misc''"
    by code_simp
next
  show "determine_scope [] = Inr ''misc''"
    by (simp add: determine_scope_def)
qed

theorem determine_scope_most_common_witness:
  "[''docs/c.md'', ''src/a.py'', ''src/b.py'', ''docs/d.md''] \<noteq> []
   \<and> determine_scope [''docs/c.md'', ''src/a.py'', ''src/b.py'', ''docs/d.md''] = Inr ''docs''
   \<and> top_dir ''docs/c.md'' = ''docs'' \<and> top_dir ''readme.md'' = ''misc''"
proof -
  have v: "determine_scope [''docs/c.md'', ''src/a.py'', ''src/b.py'', ''docs/d.md''] = Inr ''docs''"
    by code_simp
  have t: "top_dir ''docs/c.md'' = ''docs''" "top_dir ''readme.md'' = ''misc''"
    by code_simp+
  obtain r where "determine_scope [''docs/c.md'', ''src/a.py'', ''src/b.py'', ''docs/d.md''] = Inr r"
    using determine_scope_most_common
      [of "[''docs/c.md'', ''src/a.py'', ''src/b.py'', ''docs/d.md'']" "''docs/c.md''"]
    by blast
  with v t show ?thesis by simp
qed

end
